theory Spec2Isabelle
  imports Main "HOL-Library.Sublist"
begin

section \<open>Namespaced state over a nested container (jotai-persist.tsx)\<close>

subsection \<open>Path comparison\<close>

text \<open>
  \<^verbatim>\<open>compareStringArrays(a, b)\<close>: the length test, then the index loop
  \<^verbatim>\<open>for (let i = 0; i < a.length; i++) if (a[i] !== b[i]) return false\<close>.
  The loop is only reached when both arrays have the same length, so every index it
  reads is in range of both.
\<close>

function compareLoop :: "string list \<Rightarrow> string list \<Rightarrow> nat \<Rightarrow> bool" where
  "compareLoop a b i =
     (if i < length a
      then (if a ! i \<noteq> b ! i then False else compareLoop a b (Suc i))
      else True)"
  by pat_completeness auto
termination
  by (relation "measure (\<lambda>(a, b, i). length a - i)") auto

declare compareLoop.simps [simp del]

definition compareStringArrays :: "string list \<Rightarrow> string list \<Rightarrow> bool" where
  "compareStringArrays a b =
     (if length a \<noteq> length b then False else compareLoop a b 0)"

subsection \<open>JavaScript values held by the container\<close>

text \<open>
  The storage atom holds a \<^verbatim>\<open>Record<string, unknown>\<close>: JSON-like data. A plain
  object is an association list in insertion order (the order JavaScript keeps for
  string keys; the numeric order of integer-like keys is not modelled, and no operation
  here observes the order), an array is the list of its elements. Numbers are modelled
  as integers.
  Functions are not values of the container: the write path treats every function it is
  handed as an updater (\<^verbatim>\<open>typeof update === "function"\<close>).

  Property lookup consults own properties only: members inherited from the built-in
  prototypes (\<^verbatim>\<open>toString\<close>, \<^verbatim>\<open>constructor\<close>, ...) are outside the model.
\<close>

datatype jsval =
    Undefined
  | Null
  | Bool bool
  | Num int
  | Str string
  | Arr "jsval list"
  | Obj "(string \<times> jsval) list"

datatype error = TypeError

text \<open>Canonical decimal numerals, the names of the index properties of arrays and strings.\<close>

definition digitChar :: "nat \<Rightarrow> char" where
  "digitChar n = ''0123456789'' ! n"

function decimal :: "nat \<Rightarrow> string" where
  "decimal n = (if n < 10 then [digitChar n] else decimal (n div 10) @ [digitChar (n mod 10)])"
  by pat_completeness auto
termination
  by (relation "measure id") auto

declare decimal.simps [simp del]

definition indexProps :: "'a list \<Rightarrow> (string \<times> 'a) list" where
  "indexProps xs = zip (map decimal [0..<length xs]) xs"

definition lookupOr :: "(string \<times> jsval) list \<Rightarrow> string \<Rightarrow> jsval" where
  "lookupOr ps k = (case map_of ps k of None \<Rightarrow> Undefined | Some v \<Rightarrow> v)"

text \<open>
  \<^verbatim>\<open>state[k]\<close>. Reading a property of \<^verbatim>\<open>undefined\<close> or \<^verbatim>\<open>null\<close> throws a
  TypeError; numbers and booleans have no own properties; a string has its code units
  under the index keys and \<^verbatim>\<open>length\<close>, an array its elements and \<^verbatim>\<open>length\<close>.
\<close>

fun getProp :: "jsval \<Rightarrow> string \<Rightarrow> error + jsval" where
  "getProp Undefined k = Inl TypeError"
| "getProp Null k = Inl TypeError"
| "getProp (Bool b) k = Inr Undefined"
| "getProp (Num n) k = Inr Undefined"
| "getProp (Str s) k =
     Inr (if k = ''length'' then Num (int (length s))
          else lookupOr (indexProps (map (\<lambda>c. Str [c]) s)) k)"
| "getProp (Arr xs) k =
     Inr (if k = ''length'' then Num (int (length xs))
          else lookupOr (indexProps xs) k)"
| "getProp (Obj ps) k = Inr (lookupOr ps k)"

text \<open>
  The own enumerable properties, which is what the object spread \<^verbatim>\<open>{...obj}\<close> copies:
  nothing for \<^verbatim>\<open>undefined\<close>, \<^verbatim>\<open>null\<close>, numbers and booleans, the index properties
  (not \<^verbatim>\<open>length\<close>) for strings and arrays.
\<close>

fun ownProps :: "jsval \<Rightarrow> (string \<times> jsval) list" where
  "ownProps (Str s) = indexProps (map (\<lambda>c. Str [c]) s)"
| "ownProps (Arr xs) = indexProps xs"
| "ownProps (Obj ps) = ps"
| "ownProps v = []"

text \<open>\<^verbatim>\<open>{...obj, [k]: v}\<close>: an existing key keeps its place, a new key goes last.\<close>

fun setProp :: "string \<Rightarrow> 'v \<Rightarrow> (string \<times> 'v) list \<Rightarrow> (string \<times> 'v) list" where
  "setProp k v [] = [(k, v)]"
| "setProp k v (p # ps) = (if fst p = k then (k, v) # ps else p # setProp k v ps)"

text \<open>Truthiness, \<^verbatim>\<open>x || {}\<close> and \<^verbatim>\<open>x ?? d\<close>.\<close>

fun truthy :: "jsval \<Rightarrow> bool" where
  "truthy Undefined = False"
| "truthy Null = False"
| "truthy (Bool b) = b"
| "truthy (Num n) = (n \<noteq> 0)"
| "truthy (Str s) = (s \<noteq> [])"
| "truthy (Arr xs) = True"
| "truthy (Obj ps) = True"

definition orEmpty :: "jsval \<Rightarrow> jsval" where
  "orEmpty v = (if truthy v then v else Obj [])"




subsection \<open>The namespaced accessor\<close>



text \<open>
  \<^verbatim>\<open>setDeepValue(obj, keys, key, value)\<close>: with no keys left,
  \<^verbatim>\<open>{ ...obj, [key]: value }\<close>; otherwise
  \<^verbatim>\<open>{ ...obj, [first]: setDeepValue(obj[first] || {}, rest, key, value) }\<close>.
\<close>

fun setDeepValue :: "jsval \<Rightarrow> string list \<Rightarrow> string \<Rightarrow> jsval \<Rightarrow> error + jsval" where
  "setDeepValue obj [] key val = Inr (Obj (setProp key val (ownProps obj)))"
| "setDeepValue obj (first # rest) key val =
     (case getProp obj first of
        Inl e \<Rightarrow> Inl e
      | Inr v \<Rightarrow>
          (case setDeepValue (orEmpty v) rest key val of
             Inl e \<Rightarrow> Inl e
           | Inr sub \<Rightarrow> Inr (Obj (setProp first sub (ownProps obj)))))"




subsection \<open>Memoization by a custom equality\<close>

text \<open>
  \<^verbatim>\<open>useMemoEqual(value, checkEqual)\<close> keeps \<^verbatim>\<open>ref.current\<close> across renders. A value
  is \<^verbatim>\<open>null\<close>, \<^verbatim>\<open>undefined\<close> or a reference to an object: \<open>ObjRef i x\<close> is the object
  with identity \<open>i\<close> and contents \<open>x\<close>, so that \<^verbatim>\<open>===\<close> is equality of identity and
  contents (the arrays are never mutated). The state is \<open>None\<close> before the first
  render, where \<^verbatim>\<open>useRef(value)\<close> initialises \<^verbatim>\<open>ref.current\<close> with the value.
  The result is the returned value paired with the new \<^verbatim>\<open>ref.current\<close>.
\<close>

datatype 'a jsref = NullRef | UndefinedRef | ObjRef nat 'a

definition notNull :: "'a jsref \<Rightarrow> bool" where
  "notNull v = (v \<noteq> NullRef \<and> v \<noteq> UndefinedRef)"

fun contents :: "'a jsref \<Rightarrow> 'a option" where
  "contents (ObjRef i x) = Some x"
| "contents v = None"

definition useMemoEqual ::
  "'a jsref \<Rightarrow> ('a \<Rightarrow> 'a \<Rightarrow> bool) option \<Rightarrow> 'a jsref option \<Rightarrow> 'a jsref \<times> 'a jsref" where
  "useMemoEqual val checkEqual refState =
     (let current = (case refState of None \<Rightarrow> val | Some c \<Rightarrow> c);
          isEqual =
            (val = current \<or>
             (notNull val \<and> notNull current \<and>
              (case (checkEqual, val, current) of
                 (Some eq, ObjRef i x, ObjRef j y) \<Rightarrow> eq x y
               | _ \<Rightarrow> False)));
          current' = (if \<not> isEqual then val else current)
      in (current', current'))"

subsection \<open>Namespace scopes\<close>

text \<open>
  The context value and the props of \<^verbatim>\<open>StateNamespaceProvider\<close>. Atoms are compared
  by identity: \<open>DefaultAtom\<close> is the atom of the default context
  (\<^verbatim>\<open>atomWithStorage("root", {})\<close>), \<open>UserAtom n\<close> an atom created by the application.
  An absent or empty \<^verbatim>\<open>namespace\<close> prop is falsy and adds no segment.
\<close>

datatype atomRef = DefaultAtom | UserAtom nat

record namespaceContext =
  namespace :: "string list"
  namespaceAtom :: atomRef

record providerProps =
  namespaceProp :: "string option"
  rootAtomProp :: "atomRef option"

definition defaultContext :: namespaceContext where
  "defaultContext = \<lparr>namespace = [], namespaceAtom = DefaultAtom\<rparr>"

definition StateNamespaceProvider :: "namespaceContext \<Rightarrow> providerProps \<Rightarrow> namespaceContext" where
  "StateNamespaceProvider parentContext props =
     (let newNamespace =
            (case namespaceProp props of
               Some ns \<Rightarrow> (if ns \<noteq> [] then namespace parentContext @ [ns]
                            else namespace parentContext)
             | None \<Rightarrow> namespace parentContext);
          isRootNamespace = (length (namespace parentContext) = 0);
          atom = (case rootAtomProp props of
                    Some rootAtom \<Rightarrow> (if isRootNamespace then rootAtom
                                       else namespaceAtom parentContext)
                  | None \<Rightarrow> namespaceAtom parentContext)
      in \<lparr>namespace = newNamespace, namespaceAtom = atom\<rparr>)"

text \<open>The context seen inside nested providers, outermost first.\<close>

definition nestedContext :: "providerProps list \<Rightarrow> namespaceContext" where
  "nestedContext scopes = foldl StateNamespaceProvider defaultContext scopes"

text \<open>
  The rule as the specification words it: a scope's declared container becomes the
  root when no ancestor scope has established one, and the nearest ancestor's container
  is inherited otherwise. \<open>established\<close> is the container established so far, if any.
\<close>

fun specRootBinding :: "atomRef option \<Rightarrow> providerProps list \<Rightarrow> atomRef option" where
  "specRootBinding established [] = established"
| "specRootBinding established (props # inner) =
     (case established of
        Some a \<Rightarrow> specRootBinding (Some a) inner
      | None \<Rightarrow> specRootBinding (rootAtomProp props) inner)"

definition addsSegment :: "providerProps \<Rightarrow> bool" where
  "addsSegment props = (case namespaceProp props of Some ns \<Rightarrow> ns \<noteq> [] | None \<Rightarrow> False)"


subsection \<open>The write path over a heap of objects\<close>

text \<open>
  Reference identity needs addresses. A heap is the list of the objects allocated so
  far, an address is an index into it, and a value is a primitive or a reference. The
  code never assigns to a property of an existing object: every object literal
  allocates, which appends to the heap. An address outside the heap does not occur in
  a state the program builds; it reads as an object without properties.
\<close>

datatype hval = HUndefined | HNull | HBool bool | HNum int | HStr string | HRef nat

datatype cell = ObjCell "(string \<times> hval) list" | ArrCell "hval list"

type_synonym heap = "cell list"

definition lookupOrH :: "(string \<times> hval) list \<Rightarrow> string \<Rightarrow> hval" where
  "lookupOrH ps k = (case map_of ps k of None \<Rightarrow> HUndefined | Some v \<Rightarrow> v)"

fun cellProps :: "cell \<Rightarrow> (string \<times> hval) list" where
  "cellProps (ObjCell ps) = ps"
| "cellProps (ArrCell xs) = indexProps xs"

fun cellGet :: "cell \<Rightarrow> string \<Rightarrow> hval" where
  "cellGet (ObjCell ps) k = lookupOrH ps k"
| "cellGet (ArrCell xs) k =
     (if k = ''length'' then HNum (int (length xs)) else lookupOrH (indexProps xs) k)"

fun getPropH :: "heap \<Rightarrow> hval \<Rightarrow> string \<Rightarrow> error + hval" where
  "getPropH h HUndefined k = Inl TypeError"
| "getPropH h HNull k = Inl TypeError"
| "getPropH h (HBool b) k = Inr HUndefined"
| "getPropH h (HNum n) k = Inr HUndefined"
| "getPropH h (HStr s) k =
     Inr (if k = ''length'' then HNum (int (length s))
          else lookupOrH (indexProps (map (\<lambda>c. HStr [c]) s)) k)"
| "getPropH h (HRef a) k = Inr (if a < length h then cellGet (h ! a) k else HUndefined)"

fun ownPropsH :: "heap \<Rightarrow> hval \<Rightarrow> (string \<times> hval) list" where
  "ownPropsH h (HStr s) = indexProps (map (\<lambda>c. HStr [c]) s)"
| "ownPropsH h (HRef a) = (if a < length h then cellProps (h ! a) else [])"
| "ownPropsH h v = []"

fun truthyH :: "hval \<Rightarrow> bool" where
  "truthyH HUndefined = False"
| "truthyH HNull = False"
| "truthyH (HBool b) = b"
| "truthyH (HNum n) = (n \<noteq> 0)"
| "truthyH (HStr s) = (s \<noteq> [])"
| "truthyH (HRef a) = True"

text \<open>\<^verbatim>\<open>x || {}\<close>: a falsy \<open>x\<close> allocates a new empty object.\<close>

definition orEmptyH :: "heap \<Rightarrow> hval \<Rightarrow> heap \<times> hval" where
  "orEmptyH h v = (if truthyH v then (h, v) else (h @ [ObjCell []], HRef (length h)))"

text \<open>
  \<open>setDeepValue\<close> again, allocating: the result is the new heap and the reference to
  the object built. The spread reads \<open>obj\<close> before the recursive call is made.
\<close>

fun setDeepValueH ::
  "heap \<Rightarrow> hval \<Rightarrow> string list \<Rightarrow> string \<Rightarrow> hval \<Rightarrow> error + (heap \<times> hval)" where
  "setDeepValueH h obj [] key val =
     Inr (h @ [ObjCell (setProp key val (ownPropsH h obj))], HRef (length h))"
| "setDeepValueH h obj (first # rest) key val =
     (case getPropH h obj first of
        Inl e \<Rightarrow> Inl e
      | Inr v \<Rightarrow>
          (case orEmptyH h v of
             (h1, child) \<Rightarrow>
               (case setDeepValueH h1 child rest key val of
                  Inl e \<Rightarrow> Inl e
                | Inr (h2, sub) \<Rightarrow>
                    Inr (h2 @ [ObjCell (setProp first sub (ownPropsH h obj))],
                         HRef (length h2)))))"


text \<open>
  The container a reference stands for, read off the heap to a given depth (deeper
  objects are cut to \<open>Undefined\<close>): it relates the heap to the values above. In a
  well-formed heap every reference stored in an object is the address of an object.
\<close>

fun valueOf :: "nat \<Rightarrow> heap \<Rightarrow> hval \<Rightarrow> jsval" where
  "valueOf n h HUndefined = Undefined"
| "valueOf n h HNull = Null"
| "valueOf n h (HBool b) = Bool b"
| "valueOf n h (HNum i) = Num i"
| "valueOf n h (HStr s) = Str s"
| "valueOf 0 h (HRef a) = Undefined"
| "valueOf (Suc n) h (HRef a) =
     (if a < length h
      then (case h ! a of
              ObjCell ps \<Rightarrow> Obj (map (\<lambda>(k, v). (k, valueOf n h v)) ps)
            | ArrCell xs \<Rightarrow> Arr (map (valueOf n h) xs))
      else Obj [])"

fun refOK :: "heap \<Rightarrow> hval \<Rightarrow> bool" where
  "refOK h (HRef a) = (a < length h)"
| "refOK h v = True"

fun cellVals :: "cell \<Rightarrow> hval list" where
  "cellVals (ObjCell ps) = map snd ps"
| "cellVals (ArrCell xs) = xs"

definition wfHeap :: "heap \<Rightarrow> bool" where
  "wfHeap h = list_all (\<lambda>c. list_all (refOK h) (cellVals c)) h"

subsection \<open>Histories of writes\<close>




section \<open>Properties\<close>

subsection \<open>Path comparison decides equality\<close>

lemma compareLoop_iff:
  "compareLoop a b i \<longleftrightarrow> (\<forall>j. i \<le> j \<and> j < length a \<longrightarrow> a ! j = b ! j)"
proof (induction a b i rule: compareLoop.induct)
  case (1 a b i)
  show ?case
  proof (cases "i < length a")
    case False
    then show ?thesis by (subst compareLoop.simps) auto
  next
    case inr: True
    show ?thesis
    proof (cases "a ! i = b ! i")
      case False
      with inr show ?thesis by (subst compareLoop.simps) auto
    next
      case True
      have "compareLoop a b i = compareLoop a b (Suc i)"
        using inr True by (subst compareLoop.simps) simp
      also have "\<dots> \<longleftrightarrow> (\<forall>j. Suc i \<le> j \<and> j < length a \<longrightarrow> a ! j = b ! j)"
        using "1.IH" inr True by simp
      also have "\<dots> \<longleftrightarrow> (\<forall>j. i \<le> j \<and> j < length a \<longrightarrow> a ! j = b ! j)"
        using True by (metis Suc_leI le_neq_implies_less Suc_leD)
      finally show ?thesis .
    qed
  qed
qed

lemma compareStringArrays_iff: "compareStringArrays a b \<longleftrightarrow> a = b"
  by (auto simp: compareStringArrays_def compareLoop_iff list_eq_iff_nth_eq)

lemma useMemoEqual_contents:
  "contents (fst (useMemoEqual (ObjRef i a) (Some compareStringArrays) st)) = Some a"
  by (auto simp: useMemoEqual_def Let_def compareStringArrays_iff notNull_def
           split: option.splits jsref.splits)

text \<open>
  C9. \<open>compareStringArrays a b\<close> is true exactly when \<open>a\<close> and \<open>b\<close> have the same
  length and equal elements at every index. Hence \<open>useMemoEqual\<close> with this comparison,
  whatever \<^verbatim>\<open>ref.current\<close> holds, returns an array whose elements are those of the
  path it is given.
\<close>

theorem path_memo_structural:
  "(compareStringArrays a b \<longleftrightarrow> length a = length b \<and> (\<forall>i < length a. a ! i = b ! i)) \<and>
   contents (fst (useMemoEqual (ObjRef i a) (Some compareStringArrays) st)) = Some a"
  using compareStringArrays_iff [of a b] useMemoEqual_contents [of i a st]
  by (auto simp: list_eq_iff_nth_eq)

text \<open>
  Two distinct arrays with the elements \<^verbatim>\<open>["a","b"]\<close> compare equal, \<^verbatim>\<open>["a","b"]\<close> and
  \<^verbatim>\<open>["a","c"]\<close> do not, and the memo keeps the earlier of two equal arrays.
\<close>

theorem path_memo_structural_witness:
  "length [''a'', ''b''] = length [''a'', ''b''] \<and>
   compareStringArrays [''a'', ''b''] [''a'', ''b''] \<and>
   \<not> compareStringArrays [''a'', ''b''] [''a'', ''c''] \<and>
   fst (useMemoEqual (ObjRef 2 [''a'', ''b'']) (Some compareStringArrays) (Some (ObjRef 1 [''a'', ''b''])))
     = ObjRef 1 [''a'', ''b'']"
proof -
  have h: "length [''a'', ''b''] = length [''a'', ''b''] \<and>
   (\<forall>i < length [''a'', ''b'']. [''a'', ''b''] ! i = [''a'', ''b''] ! i)" by simp
  from path_memo_structural [of "[''a'', ''b'']" "[''a'', ''b'']" 0 None] h
  have c1: "compareStringArrays [''a'', ''b''] [''a'', ''b'']" by blast
  from path_memo_structural [of "[''a'', ''b'']" "[''a'', ''c'']" 0 None]
  have c2: "\<not> compareStringArrays [''a'', ''b''] [''a'', ''c'']"
    by (auto simp: nth_Cons')
  from c1 have "fst (useMemoEqual (ObjRef 2 [''a'', ''b'']) (Some compareStringArrays) (Some (ObjRef 1 [''a'', ''b''])))
     = ObjRef 1 [''a'', ''b'']"
    by (simp add: useMemoEqual_def notNull_def Let_def)
  with h c1 c2 show ?thesis by blast
qed

subsection \<open>Reads and writes never throw on a container\<close>












subsection \<open>Reading what nothing was stored under\<close>





















subsection \<open>Round trip\<close>



subsection \<open>Isolation\<close>



subsection \<open>Locations never written\<close>




subsection \<open>A write replaces what was stored under its full path\<close>




subsection \<open>Reads degrade to the default\<close>




subsection \<open>Writes through a segment that holds no container\<close>




subsection \<open>Updater functions\<close>



subsection \<open>Which container a scope binds\<close>

lemma namespace_provider_empty:
  "namespace (StateNamespaceProvider ctx q) = [] \<longleftrightarrow> namespace ctx = [] \<and> \<not> addsSegment q"
  by (simp add: StateNamespaceProvider_def addsSegment_def Let_def split: option.splits)

lemma namespace_fold_empty:
  "namespace (foldl StateNamespaceProvider ctx scopes) = [] \<longleftrightarrow>
     namespace ctx = [] \<and> (\<forall>q \<in> set scopes. \<not> addsSegment q)"
  by (induction scopes arbitrary: ctx) (auto simp: namespace_provider_empty)

lemma namespace_nested_empty:
  "namespace (nestedContext scopes) = [] \<longleftrightarrow> (\<forall>q \<in> set scopes. \<not> addsSegment q)"
  by (simp add: nestedContext_def namespace_fold_empty defaultContext_def)

lemma nestedContext_snoc:
  "nestedContext (scopes @ [p]) = StateNamespaceProvider (nestedContext scopes) p"
  by (simp add: nestedContext_def)

lemma atom_fold_inherited:
  "\<forall>q \<in> set inner. rootAtomProp q = None \<Longrightarrow>
     namespaceAtom (foldl StateNamespaceProvider ctx inner) = namespaceAtom ctx"
  by (induction inner arbitrary: ctx) (simp_all add: StateNamespaceProvider_def Let_def)

text \<open>
  C2, as the code has it. A scope that declares a backing container (\<^verbatim>\<open>rootAtom\<close>)
  adopts it exactly when the namespace path it inherits is empty, that is, when no
  ancestor scope has introduced a path segment, whether or not an ancestor has bound a
  container of its own; when some ancestor has introduced a segment, the parent's
  container is inherited unchanged. What the scope provides is inherited by all its
  descendants that declare no container.
\<close>

theorem root_binding_selection:
  assumes "rootAtomProp p = Some r"
  shows "((\<forall>q \<in> set anc. \<not> addsSegment q) \<longrightarrow> namespaceAtom (nestedContext (anc @ [p])) = r) \<and>
         ((\<exists>q \<in> set anc. addsSegment q) \<longrightarrow>
            namespaceAtom (nestedContext (anc @ [p])) = namespaceAtom (nestedContext anc)) \<and>
         ((\<forall>q \<in> set inner. rootAtomProp q = None) \<longrightarrow>
            namespaceAtom (nestedContext (anc @ p # inner)) = namespaceAtom (nestedContext (anc @ [p])))"
proof -
  have a: "namespaceAtom (nestedContext (anc @ [p])) = r" if "\<forall>q \<in> set anc. \<not> addsSegment q"
  proof -
    from that have "namespace (nestedContext anc) = []" by (simp add: namespace_nested_empty)
    with assms show ?thesis
      by (simp add: nestedContext_snoc StateNamespaceProvider_def Let_def)
  qed
  have b: "namespaceAtom (nestedContext (anc @ [p])) = namespaceAtom (nestedContext anc)"
    if "\<exists>q \<in> set anc. addsSegment q"
  proof -
    from that have "namespace (nestedContext anc) \<noteq> []" by (simp add: namespace_nested_empty)
    with assms show ?thesis
      by (simp add: nestedContext_snoc StateNamespaceProvider_def Let_def)
  qed
  have c: "namespaceAtom (nestedContext (anc @ p # inner)) = namespaceAtom (nestedContext (anc @ [p]))"
    if "\<forall>q \<in> set inner. rootAtomProp q = None"
  proof -
    have "nestedContext (anc @ p # inner) = foldl StateNamespaceProvider (nestedContext (anc @ [p])) inner"
      by (simp add: nestedContext_def)
    with atom_fold_inherited [OF that] show ?thesis by simp
  qed
  from a b c show ?thesis by blast
qed

text \<open>
  The first test's tree below a scope that declares nothing: the scope with the
  segment \<^verbatim>\<open>test1\<close> declares a container, its child only the segment
  \<^verbatim>\<open>namespace1\<close>; both see the declared container. Below an ancestor with the segment
  \<^verbatim>\<open>a\<close>, the declaration is ignored.
\<close>

theorem root_binding_selection_witness:
  "rootAtomProp \<lparr>namespaceProp = Some ''test1'', rootAtomProp = Some (UserAtom 1)\<rparr> = Some (UserAtom 1) \<and>
   \<not> addsSegment \<lparr>namespaceProp = None, rootAtomProp = None\<rparr> \<and>
   rootAtomProp \<lparr>namespaceProp = Some ''namespace1'', rootAtomProp = None\<rparr> = None \<and>
   namespaceAtom (nestedContext ([\<lparr>namespaceProp = None, rootAtomProp = None\<rparr>]
       @ [\<lparr>namespaceProp = Some ''test1'', rootAtomProp = Some (UserAtom 1)\<rparr>])) = UserAtom 1 \<and>
   namespaceAtom (nestedContext ([\<lparr>namespaceProp = None, rootAtomProp = None\<rparr>]
       @ \<lparr>namespaceProp = Some ''test1'', rootAtomProp = Some (UserAtom 1)\<rparr>
       # [\<lparr>namespaceProp = Some ''namespace1'', rootAtomProp = None\<rparr>])) = UserAtom 1 \<and>
   addsSegment \<lparr>namespaceProp = Some ''a'', rootAtomProp = None\<rparr> \<and>
   namespaceAtom (nestedContext ([\<lparr>namespaceProp = Some ''a'', rootAtomProp = None\<rparr>]
       @ [\<lparr>namespaceProp = Some ''test1'', rootAtomProp = Some (UserAtom 1)\<rparr>])) = DefaultAtom"
proof -
  let ?p = "\<lparr>namespaceProp = Some ''test1'', rootAtomProp = Some (UserAtom 1)\<rparr>"
  let ?c = "\<lparr>namespaceProp = Some ''namespace1'', rootAtomProp = None\<rparr>"
  let ?a = "\<lparr>namespaceProp = Some ''a'', rootAtomProp = None\<rparr>"
  let ?n = "\<lparr>namespaceProp = None, rootAtomProp = None\<rparr>"
  have h1: "rootAtomProp ?p = Some (UserAtom 1)" by simp
  have h2: "\<not> addsSegment ?n" by (simp add: addsSegment_def)
  have h3: "rootAtomProp ?c = None" by simp
  have h4: "addsSegment ?a" by (simp add: addsSegment_def)
  from h2 have b2: "\<forall>q \<in> set [?n]. \<not> addsSegment q" by simp
  from h3 have b3: "\<forall>q \<in> set [?c]. rootAtomProp q = None" by simp
  from h4 have b4: "\<exists>q \<in> set [?a]. addsSegment q" by simp
  from root_binding_selection [OF h1, of "[?n]" "[?c]"] b2 b3
  have "namespaceAtom (nestedContext ([?n] @ [?p])) = UserAtom 1"
    "namespaceAtom (nestedContext ([?n] @ ?p # [?c])) = UserAtom 1"
    by auto
  moreover from root_binding_selection [OF h1, of "[?a]" "[]"] b4
  have "namespaceAtom (nestedContext ([?a] @ [?p])) = namespaceAtom (nestedContext [?a])"
    by blast
  then have "namespaceAtom (nestedContext ([?a] @ [?p])) = DefaultAtom"
    by (simp add: nestedContext_def StateNamespaceProvider_def defaultContext_def)
  ultimately show ?thesis using h1 h2 h3 h4 by blast
qed

text \<open>
  The rule as the specification words it differs from the code in both directions. A
  scope declares a container below an ancestor that has a segment but bound nothing: no
  ancestor has established a container, and yet the default one stays. A scope declares
  a container below an ancestor that bound one without a segment: an ancestor has
  established a container, and yet the new one replaces it.
\<close>

theorem root_binding_selection_counterexample:
  "specRootBinding None [\<lparr>namespaceProp = Some ''a'', rootAtomProp = None\<rparr>,
                         \<lparr>namespaceProp = None, rootAtomProp = Some (UserAtom 1)\<rparr>] = Some (UserAtom 1) \<and>
   namespaceAtom (nestedContext [\<lparr>namespaceProp = Some ''a'', rootAtomProp = None\<rparr>,
                         \<lparr>namespaceProp = None, rootAtomProp = Some (UserAtom 1)\<rparr>]) = DefaultAtom \<and>
   specRootBinding None [\<lparr>namespaceProp = None, rootAtomProp = Some (UserAtom 1)\<rparr>,
                         \<lparr>namespaceProp = None, rootAtomProp = Some (UserAtom 2)\<rparr>] = Some (UserAtom 1) \<and>
   namespaceAtom (nestedContext [\<lparr>namespaceProp = None, rootAtomProp = Some (UserAtom 1)\<rparr>,
                         \<lparr>namespaceProp = None, rootAtomProp = Some (UserAtom 2)\<rparr>]) = UserAtom 2 \<and>
   DefaultAtom \<noteq> UserAtom 1 \<and> UserAtom 2 \<noteq> UserAtom 1"
  by (simp add: nestedContext_def StateNamespaceProvider_def defaultContext_def)

subsection \<open>Structural sharing\<close>




lemma prefix_orEmptyH: "orEmptyH h v = (h1, child) \<Longrightarrow> prefix h h1"
  by (auto simp: orEmptyH_def split: if_splits)


lemma setDeepValueH_extends:
  "setDeepValueH h obj P K V = Inr (h', r) \<Longrightarrow> prefix h h'"
proof (induction P arbitrary: h obj h' r)
  case Nil
  then show ?case by auto
next
  case (Cons first rest)
  from Cons.prems obtain v h1 child h2 sub where
    v: "getPropH h obj first = Inr v" and
    oe: "orEmptyH h v = (h1, child)" and
    sub: "setDeepValueH h1 child rest K V = Inr (h2, sub)" and
    h': "h' = h2 @ [ObjCell (setProp first sub (ownPropsH h obj))]"
    by (auto split: sum.splits prod.splits)
  from prefix_orEmptyH [OF oe] Cons.IH [OF sub] have "prefix h h2"
    by (rule prefix_order.trans)
  then show ?case by (simp add: h' prefix_prefix)
qed






lemma own_vs_get_H:
  assumes "getPropH h obj k = Inr w"
  shows "lookupOrH (ownPropsH h obj) k = w \<or> (\<exists>n. w = HNum n)"
proof (cases obj)
  case (HRef a)
  show ?thesis
  proof (cases "a < length h")
    case True
    with assms HRef show ?thesis by (cases "h ! a") (auto simp: lookupOrH_def)
  next
    case False
    with assms HRef show ?thesis by (auto simp: lookupOrH_def)
  qed
next
  case HUndefined with assms show ?thesis by simp
next
  case HNull with assms show ?thesis by simp
next
  case (HBool b) with assms show ?thesis by (auto simp: lookupOrH_def)
next
  case (HNum n) with assms show ?thesis by (auto simp: lookupOrH_def)
next
  case (HStr s) with assms show ?thesis by (auto simp: lookupOrH_def)
qed




text \<open>
  The heap version computes what the version on values computes: on a well-formed
  heap, the container under the new root is \<open>setDeepValue\<close> of the container under
  the old one.
\<close>

lemma indexProps_map: "map (\<lambda>(k, v). (k, f v)) (indexProps xs) = indexProps (map f xs)"
  by (simp add: indexProps_def zip_map2)

lemma setProp_map:
  "map (\<lambda>(k, v). (k, f v)) (setProp a x ps) = setProp a (f x) (map (\<lambda>(k, v). (k, f v)) ps)"
  by (induction ps) auto

lemma lookupOr_map:
  "f HUndefined = Undefined \<Longrightarrow> lookupOr (map (\<lambda>(k, v). (k, f v)) ps) k = f (lookupOrH ps k)"
  by (induction ps) (auto simp: lookupOr_def lookupOrH_def)

lemma refOK_extend: "prefix h h' \<Longrightarrow> refOK h v \<Longrightarrow> refOK h' v"
  by (cases v) (auto simp: prefix_def)

lemma wfHeap_cell: "wfHeap h \<Longrightarrow> a < length h \<Longrightarrow> v \<in> set (cellVals (h ! a)) \<Longrightarrow> refOK h v"
  by (auto simp: wfHeap_def list_all_iff)

lemma valueOf_extend:
  "wfHeap h \<Longrightarrow> prefix h h' \<Longrightarrow> refOK h v \<Longrightarrow> valueOf n h' v = valueOf n h v"
proof (induction n arbitrary: v)
  case 0
  then show ?case by (cases v) auto
next
  case (Suc n)
  show ?case
  proof (cases v)
    case (HRef a)
    with Suc.prems(3) have a: "a < length h" by simp
    with Suc.prems(2) have a': "a < length h'" and same: "h' ! a = h ! a"
      by (auto simp: prefix_def nth_append)
    have ih: "valueOf n h' w = valueOf n h w" if "w \<in> set (cellVals (h ! a))" for w
      using Suc.IH [OF Suc.prems(1,2) wfHeap_cell [OF Suc.prems(1) a that]] .
    show ?thesis
    proof (cases "h ! a")
      case (ObjCell ps)
      with ih have "map (\<lambda>(k, v). (k, valueOf n h' v)) ps = map (\<lambda>(k, v). (k, valueOf n h v)) ps"
        by (force intro!: map_cong simp: image_iff)
      with a a' same ObjCell show ?thesis by (simp add: HRef)
    next
      case (ArrCell xs)
      with ih have "map (valueOf n h') xs = map (valueOf n h) xs" by auto
      with a a' same ArrCell show ?thesis by (simp add: HRef)
    qed
  qed simp_all
qed

lemma ownProps_valueOf:
  "ownProps (valueOf (Suc n) h obj) = map (\<lambda>(k, v). (k, valueOf n h v)) (ownPropsH h obj)"
proof (cases obj)
  case (HRef a)
  then show ?thesis
    by (cases "h ! a") (auto simp: indexProps_map)
next
  case (HStr s)
  then show ?thesis by (simp add: indexProps_map comp_def)
qed simp_all

lemma getProp_valueOf:
  "getPropH h obj k = Inr w \<Longrightarrow> getProp (valueOf (Suc n) h obj) k = Inr (valueOf n h w)"
proof (cases obj)
  case (HRef a)
  assume g: "getPropH h obj k = Inr w"
  show ?thesis
  proof (cases "a < length h")
    case True
    with g HRef show ?thesis
      by (cases "h ! a")
         (auto simp: lookupOr_map indexProps_map [symmetric] simp del: indexProps_map)
  next
    case False
    with g HRef show ?thesis by (auto simp: lookupOr_def)
  qed
next
  case (HStr s)
  assume "getPropH h obj k = Inr w"
  with HStr show ?thesis
    using lookupOr_map [of "valueOf n h" "indexProps (map (\<lambda>c. HStr [c]) s)" k]
    by (auto simp: indexProps_map comp_def)
qed auto

lemma truthy_valueOf: "truthy (valueOf (Suc n) h w) = truthyH w"
  by (cases w) (auto split: cell.splits)

lemma wfHeap_snoc:
  "wfHeap h \<Longrightarrow> list_all (refOK h) (cellVals c) \<Longrightarrow> wfHeap (h @ [c])"
  by (auto simp: wfHeap_def list_all_iff intro: refOK_extend [of h "h @ [c]"])

lemma refOK_ownPropsH:
  "wfHeap h \<Longrightarrow> refOK h obj \<Longrightarrow> v \<in> snd ` set (ownPropsH h obj) \<Longrightarrow> refOK h v"
proof (cases obj)
  case (HRef a)
  assume "wfHeap h" "refOK h obj" "v \<in> snd ` set (ownPropsH h obj)"
  show ?thesis
  proof (cases "a < length h")
    case True
    have "v \<in> set (cellVals (h ! a))"
      using \<open>v \<in> snd ` set (ownPropsH h obj)\<close> HRef True
      by (cases "h ! a") (auto simp: indexProps_def dest!: set_zip_rightD)
    from wfHeap_cell [OF \<open>wfHeap h\<close> True this] show ?thesis .
  next
    case False
    with \<open>refOK h obj\<close> HRef show ?thesis by simp
  qed
next
  case (HStr s)
  assume "v \<in> snd ` set (ownPropsH h obj)"
  with HStr show ?thesis by (auto simp: indexProps_def dest!: set_zip_rightD)
qed auto

lemma refOK_setProp:
  "refOK h x \<Longrightarrow> \<forall>v \<in> snd ` set ps. refOK h v \<Longrightarrow> list_all (refOK h) (map snd (setProp a x ps))"
  by (induction ps) (auto simp: list_all_iff)

lemma orEmptyH_refines:
  assumes "orEmptyH h v = (h1, child)"
  shows "valueOf (Suc n) h1 child = orEmpty (valueOf (Suc n) h v) \<or> (truthyH v \<and> h1 = h \<and> child = v)"
  using assms by (auto simp: orEmptyH_def orEmpty_def truthy_valueOf split: if_splits)

lemma orEmptyH_wf:
  assumes "orEmptyH h v = (h1, child)" and "wfHeap h" and "refOK h v"
  shows "wfHeap h1 \<and> refOK h1 child"
  using assms by (auto simp: orEmptyH_def wfHeap_snoc split: if_splits)

lemma setDeepValueH_refines:
  "wfHeap h \<Longrightarrow> refOK h obj \<Longrightarrow> refOK h V \<Longrightarrow> setDeepValueH h obj P K V = Inr (h', r) \<Longrightarrow>
     wfHeap h' \<and> refOK h' r \<and>
     setDeepValue (valueOf (Suc (length P + n)) h obj) P K (valueOf n h V)
       = Inr (valueOf (Suc (length P + n)) h' r)"
proof (induction P arbitrary: h obj h' r)
  case Nil
  let ?ps = "setProp K V (ownPropsH h obj)"
  from Nil.prems(4) have h': "h' = h @ [ObjCell ?ps]" and r: "r = HRef (length h)" by auto
  have ext: "prefix h h'" by (simp add: h')
  have ok: "list_all (refOK h) (map snd ?ps)"
    using refOK_setProp [OF Nil.prems(3)] refOK_ownPropsH [OF Nil.prems(1,2)] by blast
  then have wf': "wfHeap h'" using wfHeap_snoc [OF Nil.prems(1), of "ObjCell ?ps"] by (simp add: h')
  have same: "valueOf n h' v = valueOf n h v" if "v \<in> snd ` set ?ps" for v
    using valueOf_extend [OF Nil.prems(1) ext] ok that by (auto simp: list_all_iff)
  have "valueOf (Suc n) h' r = Obj (map (\<lambda>(k, v). (k, valueOf n h' v)) ?ps)"
    by (simp add: h' r)
  also have "map (\<lambda>(k, v). (k, valueOf n h' v)) ?ps = map (\<lambda>(k, v). (k, valueOf n h v)) ?ps"
    using same by (force intro!: map_cong simp: image_iff)
  also have "\<dots> = setProp K (valueOf n h V) (ownProps (valueOf (Suc n) h obj))"
    by (simp add: setProp_map ownProps_valueOf)
  finally show ?case using wf' by (simp add: r h')
next
  case (Cons a R1)
  let ?D = "Suc (length R1 + n)"
  from Cons.prems(4) obtain v h1 child h2 sub where
    v: "getPropH h obj a = Inr v" and
    oe: "orEmptyH h v = (h1, child)" and
    sub: "setDeepValueH h1 child R1 K V = Inr (h2, sub)" and
    h': "h' = h2 @ [ObjCell (setProp a sub (ownPropsH h obj))]" and
    r: "r = HRef (length h2)"
    by (auto split: sum.splits prod.splits)
  let ?ps = "setProp a sub (ownPropsH h obj)"
  have okv: "refOK h v"
  proof (cases obj)
    case (HRef b)
    show ?thesis
    proof (cases "b < length h")
      case True
      have "v = HUndefined \<or> v \<in> snd ` set (ownPropsH h obj) \<or> (\<exists>m. v = HNum m)"
        using v HRef True own_vs_get_H [OF v]
        by (auto simp: lookupOrH_def split: option.splits dest!: map_of_SomeD intro: rev_image_eqI)
      with refOK_ownPropsH [OF Cons.prems(1,2)] show ?thesis by auto
    next
      case False
      with Cons.prems(2) HRef show ?thesis by simp
    qed
  next
    case (HStr s)
    have "v = HUndefined \<or> v \<in> snd ` set (ownPropsH h obj) \<or> (\<exists>m. v = HNum m)"
      using v own_vs_get_H [OF v]
      by (auto simp: lookupOrH_def split: option.splits dest!: map_of_SomeD intro: rev_image_eqI)
    with refOK_ownPropsH [OF Cons.prems(1,2)] show ?thesis by auto
  qed (use v in auto)
  from orEmptyH_wf [OF oe Cons.prems(1) okv] have wf1: "wfHeap h1" and okc: "refOK h1 child" by simp_all
  have ext1: "prefix h h1" by (rule prefix_orEmptyH [OF oe])
  have okV1: "refOK h1 V" by (rule refOK_extend [OF ext1 Cons.prems(3)])
  from Cons.IH [OF wf1 okc okV1 sub] have
    wf2: "wfHeap h2" and oks: "refOK h2 sub" and
    ih: "setDeepValue (valueOf ?D h1 child) R1 K (valueOf n h1 V) = Inr (valueOf ?D h2 sub)"
    by simp_all
  have ext2: "prefix h h2"
    using ext1 setDeepValueH_extends [OF sub] by (rule prefix_order.trans)
  have ext': "prefix h2 h'" by (simp add: h')
  have okps: "list_all (refOK h2) (map snd ?ps)"
  proof -
    have "\<forall>w \<in> snd ` set (ownPropsH h obj). refOK h2 w"
      using refOK_ownPropsH [OF Cons.prems(1,2)] refOK_extend [OF ext2] by blast
    from refOK_setProp [OF oks this] show ?thesis .
  qed
  then have wf': "wfHeap h'" using wfHeap_snoc [OF wf2, of "ObjCell ?ps"] by (simp add: h')
  have child: "valueOf ?D h1 child = orEmpty (valueOf ?D h v)"
    using orEmptyH_refines [OF oe, of "length R1 + n"]
    by (auto simp: orEmpty_def truthy_valueOf)
  have V1: "valueOf n h1 V = valueOf n h V"
    by (rule valueOf_extend [OF Cons.prems(1) ext1 Cons.prems(3)])
  have same: "valueOf ?D h' w = valueOf ?D h w" if "w \<in> snd ` set (ownPropsH h obj)" for w
    using valueOf_extend [OF Cons.prems(1) prefix_order.trans [OF ext2 ext']]
      refOK_ownPropsH [OF Cons.prems(1,2) that] by simp
  have subv: "valueOf ?D h' sub = valueOf ?D h2 sub"
    by (rule valueOf_extend [OF wf2 ext' oks])
  have "valueOf (Suc ?D) h' r = Obj (map (\<lambda>(k, w). (k, valueOf ?D h' w)) ?ps)"
    by (simp add: h' r)
  also have "map (\<lambda>(k, w). (k, valueOf ?D h' w)) ?ps
               = setProp a (valueOf ?D h' sub) (map (\<lambda>(k, w). (k, valueOf ?D h' w)) (ownPropsH h obj))"
    by (simp add: setProp_map)
  also have "map (\<lambda>(k, w). (k, valueOf ?D h' w)) (ownPropsH h obj)
               = map (\<lambda>(k, w). (k, valueOf ?D h w)) (ownPropsH h obj)"
    using same by (force intro!: map_cong simp: image_iff)
  also have "\<dots> = ownProps (valueOf (Suc ?D) h obj)" by (simp add: ownProps_valueOf)
  finally have root: "valueOf (Suc ?D) h' r
      = Obj (setProp a (valueOf ?D h2 sub) (ownProps (valueOf (Suc ?D) h obj)))"
    by (simp add: subv)
  have "setDeepValue (valueOf (Suc ?D) h obj) (a # R1) K (valueOf n h V)
          = Inr (Obj (setProp a (valueOf ?D h2 sub) (ownProps (valueOf (Suc ?D) h obj))))"
    using getProp_valueOf [OF v, of ?D] ih by (simp add: child V1)
  with root wf' show ?case by (simp add: r h')
qed



end
